theory Spec2Isabelle
  imports Main "HOL-Library.Sublist"
begin

section \<open>Ticket tracker (src/App.tsx): data model\<close>

text \<open>
  The program is one React Native component, \<^verbatim>\<open>TicketTrackerMobile\<close>. Its state is
  the \<^verbatim>\<open>useState\<close> cells of the component and of the ticket form; every handler is a
  function from state to state. Strings are lists of 8-bit code units; JavaScript numbers
  that the program only ever uses as integers (ratings, clock readings, date fields) are
  \<open>int\<close>.
\<close>

datatype TicketStatus = Created | UnderAssistance | Completed

text \<open>
  \<^verbatim>\<open>interface Ticket\<close>. The field \<^verbatim>\<open>id\<close> is called \<open>id_t\<close> here, since \<open>id\<close> is the
  identity function of HOL. \<^verbatim>\<open>rating?: number\<close> is an optional field.
\<close>

record Ticket =
  id_t :: string
  title :: string
  description :: string
  status :: TicketStatus
  createdAt :: string
  rating :: "int option"

text \<open>
  \<^verbatim>\<open>Partial<Ticket>\<close>: every key may be missing (\<open>None\<close>). A key that is present holds
  a value of the field's type; for \<^verbatim>\<open>rating\<close> the value of a present key may itself be
  \<^verbatim>\<open>undefined\<close>, which the object spread copies like any other value.
\<close>

record TicketPatch =
  p_id :: "string option"
  p_title :: "string option"
  p_description :: "string option"
  p_status :: "TicketStatus option"
  p_createdAt :: "string option"
  p_rating :: "int option option"

definition no_patch :: TicketPatch where
  "no_patch = \<lparr>p_id = None, p_title = None, p_description = None, p_status = None,
     p_createdAt = None, p_rating = None\<rparr>"

text \<open>The object spread \<^verbatim>\<open>{ ...t, ...data }\<close>: the keys of \<^verbatim>\<open>data\<close> win.\<close>

definition spread :: "Ticket \<Rightarrow> TicketPatch \<Rightarrow> Ticket" where
  "spread t d =
     \<lparr>id_t = (case p_id d of None \<Rightarrow> id_t t | Some v \<Rightarrow> v),
      title = (case p_title d of None \<Rightarrow> title t | Some v \<Rightarrow> v),
      description = (case p_description d of None \<Rightarrow> description t | Some v \<Rightarrow> v),
      status = (case p_status d of None \<Rightarrow> status t | Some v \<Rightarrow> v),
      createdAt = (case p_createdAt d of None \<Rightarrow> createdAt t | Some v \<Rightarrow> v),
      rating = (case p_rating d of None \<Rightarrow> rating t | Some v \<Rightarrow> v)\<rparr>"

section \<open>String helpers of the JavaScript runtime\<close>

text \<open>
  The white space and line terminators that \<^verbatim>\<open>String.prototype.trim\<close> strips, as far as
  they are 8-bit code units: TAB, LF, VT, FF, CR, SPACE and NBSP.
\<close>

definition is_ws :: "char \<Rightarrow> bool" where
  "is_ws c = (of_char c \<in> {9, 10, 11, 12, 13, 32, 160 :: nat})"

definition trim :: "string \<Rightarrow> string" where
  "trim s = rev (dropWhile is_ws (rev (dropWhile is_ws s)))"

text \<open>\<^verbatim>\<open>s.substr(start, len)\<close> for a start and a length that are not negative.\<close>

definition substr :: "nat \<Rightarrow> nat \<Rightarrow> string \<Rightarrow> string" where
  "substr start len s = take len (drop start s)"

text \<open>\<^verbatim>\<open>s.padStart(n, c)\<close> for a pad text \<open>c\<close> of one character.\<close>

definition padStart :: "nat \<Rightarrow> char \<Rightarrow> string \<Rightarrow> string" where
  "padStart n c s = replicate (n - length s) c @ s"

text \<open>
  \<^verbatim>\<open>String(n)\<close> and template interpolation of an integer: decimal digits, a minus sign
  for a negative number.
\<close>

definition digit_char :: "nat \<Rightarrow> char" where
  "digit_char d = ''0123456789'' ! d"

fun nat_digits :: "nat \<Rightarrow> string" where
  "nat_digits n = (if n < 10 then [digit_char n] else nat_digits (n div 10) @ [digit_char (n mod 10)])"

declare nat_digits.simps [simp del]

definition String_of :: "int \<Rightarrow> string" where
  "String_of i = (if i < 0 then CHR ''-'' # nat_digits (nat (- i)) else nat_digits (nat i))"

section \<open>Utilities: \<^verbatim>\<open>generateId\<close> and \<^verbatim>\<open>formatDate\<close>\<close>

text \<open>
  What the local clock shows when \<^verbatim>\<open>new Date()\<close> is read: \<^verbatim>\<open>getFullYear()\<close>,
  \<^verbatim>\<open>getMonth()\<close> (0 to 11), \<^verbatim>\<open>getDate()\<close>, \<^verbatim>\<open>getHours()\<close>, \<^verbatim>\<open>getMinutes()\<close>.
\<close>

record DateParts =
  fullYear :: int
  month :: int
  date :: int
  hours :: int
  minutes :: int

text \<open>
  What one creation reads from outside the program: \<^verbatim>\<open>Date.now()\<close> in milliseconds,
  the text \<^verbatim>\<open>Math.random().toString(36)\<close> (\<^verbatim>\<open>0.\<close> followed by base-36 digits, or \<^verbatim>\<open>0\<close>),
  and the local date.
\<close>

record Env =
  now_ms :: int
  random36 :: string
  today :: DateParts

definition generateId :: "Env \<Rightarrow> string" where
  "generateId e = ''ticket_'' @ String_of (now_ms e) @ ''_'' @ substr 2 9 (random36 e)"

definition formatDate :: "Env \<Rightarrow> string" where
  "formatDate e =
     (let now = today e in
      String_of (fullYear now) @ ''-'' @ padStart 2 CHR ''0'' (String_of (month now + 1)) @ ''-'' @
      padStart 2 CHR ''0'' (String_of (date now)) @ '' '' @ padStart 2 CHR ''0'' (String_of (hours now)) @ '':'' @
      padStart 2 CHR ''0'' (String_of (minutes now)))"

section \<open>Application state\<close>

text \<open>\<^verbatim>\<open>SAMPLE_TICKETS\<close>, the initial value of the collection.\<close>

definition SAMPLE_TICKETS :: "Ticket list" where
  "SAMPLE_TICKETS =
    [\<lparr>id_t = ''1'', title = ''Login button not responding'',
      description = ''The login button does not work on mobile devices when tapped multiple times.'',
      status = Completed, createdAt = ''2025-10-05 14:32'', rating = Some 5\<rparr>,
     \<lparr>id_t = ''2'', title = ''Dashboard loading slowly'',
      description = ''Dashboard takes more than 10 seconds to load all widgets and data.'',
      status = UnderAssistance, createdAt = ''2025-10-06 09:15'', rating = None\<rparr>,
     \<lparr>id_t = ''3'', title = ''Email notifications not sent'',
      description = ''Users report not receiving email notifications for ticket updates.'',
      status = Created, createdAt = ''2025-10-06 16:45'', rating = None\<rparr>,
     \<lparr>id_t = ''4'', title = ''Profile picture upload fails'',
      description = ''Error message appears when trying to upload profile pictures larger than 2MB.'',
      status = Completed, createdAt = ''2025-10-04 11:20'', rating = Some 4\<rparr>,
     \<lparr>id_t = ''5'', title = ''Search function returns no results'',
      description = ''The search bar does not return any results even with valid keywords.'',
      status = UnderAssistance, createdAt = ''2025-10-07 08:00'', rating = None\<rparr>]"

text \<open>The cell \<^verbatim>\<open>deleteConfirm\<close>: \<^verbatim>\<open>{ visible: boolean; ticketId?: string }\<close>.\<close>

record DeleteConfirm =
  visible :: bool
  ticketId :: "string option"

text \<open>The three \<^verbatim>\<open>useState\<close> cells of \<^verbatim>\<open>TicketForm\<close>.\<close>

record FormState =
  f_title :: string
  f_description :: string
  f_status :: TicketStatus

text \<open>
  The cells of \<^verbatim>\<open>TicketTrackerMobile\<close>, and \<open>form\<close>, the cells of the one \<^verbatim>\<open>TicketForm\<close>
  it renders inside its modal.
\<close>

record App =
  tickets :: "Ticket list"
  isFormOpen :: bool
  editingTicket :: "Ticket option"
  deleteConfirm :: DeleteConfirm
  form :: FormState

section \<open>The handlers of \<^verbatim>\<open>TicketTrackerMobile\<close>\<close>

text \<open>
  \<^verbatim>\<open>data.title!\<close> and \<^verbatim>\<open>data.description!\<close> assert that the keys are there; the only caller,
  the form's \<^verbatim>\<open>handleSubmit\<close>, always sends them. For a patch without them the model
  stores the empty text.
\<close>

definition handleCreateTicket :: "Env \<Rightarrow> TicketPatch \<Rightarrow> App \<Rightarrow> App" where
  "handleCreateTicket e d s =
     (let newTicket = \<lparr>id_t = generateId e,
                       title = (case p_title d of None \<Rightarrow> [] | Some v \<Rightarrow> v),
                       description = (case p_description d of None \<Rightarrow> [] | Some v \<Rightarrow> v),
                       status = Created,
                       createdAt = formatDate e,
                       rating = None\<rparr>
      in s\<lparr>tickets := newTicket # tickets s\<rparr>)"

definition handleUpdateTicket :: "TicketPatch \<Rightarrow> App \<Rightarrow> App" where
  "handleUpdateTicket d s =
     (case editingTicket s of
        None \<Rightarrow> s
      | Some et \<Rightarrow>
          s\<lparr>tickets := map (\<lambda>t. if id_t t = id_t et then spread t d else t) (tickets s),
            editingTicket := None\<rparr>)"

definition handleDeleteTicket :: "string \<Rightarrow> App \<Rightarrow> App" where
  "handleDeleteTicket i s = s\<lparr>tickets := filter (\<lambda>t. id_t t \<noteq> i) (tickets s)\<rparr>"

definition handleStatusChange :: "string \<Rightarrow> TicketStatus \<Rightarrow> App \<Rightarrow> App" where
  "handleStatusChange i st s =
     s\<lparr>tickets := map (\<lambda>t. if id_t t = i then t\<lparr>status := st\<rparr> else t) (tickets s)\<rparr>"

definition handleRate :: "string \<Rightarrow> int \<Rightarrow> App \<Rightarrow> App" where
  "handleRate i r s =
     s\<lparr>tickets := map (\<lambda>t. if id_t t = i then t\<lparr>rating := Some r\<rparr> else t) (tickets s)\<rparr>"

definition openEditForm :: "Ticket \<Rightarrow> App \<Rightarrow> App" where
  "openEditForm t s = s\<lparr>editingTicket := Some t, isFormOpen := True\<rparr>"

definition closeForm :: "App \<Rightarrow> App" where
  "closeForm s = s\<lparr>isFormOpen := False, editingTicket := None\<rparr>"

section \<open>\<^verbatim>\<open>TicketForm\<close>\<close>

text \<open>
  The initial values of the form's cells, from its \<^verbatim>\<open>ticket\<close> prop:
  \<^verbatim>\<open>ticket?.title || ''\<close>, \<^verbatim>\<open>ticket?.description || ''\<close>, \<^verbatim>\<open>ticket?.status || 'Created'\<close>.
\<close>

definition TicketForm_init :: "Ticket option \<Rightarrow> FormState" where
  "TicketForm_init ticket =
     (case ticket of
        None \<Rightarrow> \<lparr>f_title = [], f_description = [], f_status = Created\<rparr>
      | Some t \<Rightarrow> \<lparr>f_title = title t, f_description = description t, f_status = status t\<rparr>)"

definition canEditContent :: "Ticket option \<Rightarrow> bool" where
  "canEditContent ticket = (case ticket of None \<Rightarrow> True | Some t \<Rightarrow> status t = Created)"

definition isEditing :: "Ticket option \<Rightarrow> bool" where
  "isEditing ticket = (ticket \<noteq> None)"

text \<open>
  \<^verbatim>\<open>handleSubmit\<close>. The form's \<^verbatim>\<open>ticket\<close> prop is \<^verbatim>\<open>editingTicket\<close>, its \<^verbatim>\<open>onSave\<close> is
  \<^verbatim>\<open>editingTicket ? handleUpdateTicket : handleCreateTicket\<close> and its \<^verbatim>\<open>onClose\<close> is
  \<^verbatim>\<open>closeForm\<close>. An empty text is falsy, so \<^verbatim>\<open>!title.trim()\<close> holds exactly when the
  trimmed title is empty. The environment is read only if a ticket is created.
\<close>

definition handleSubmit :: "Env \<Rightarrow> App \<Rightarrow> App" where
  "handleSubmit e s =
     (let f = form s in
      if trim (f_title f) = [] \<or> trim (f_description f) = [] then s
      else
        let d = no_patch\<lparr>p_title := Some (trim (f_title f)),
                         p_description := Some (trim (f_description f)),
                         p_status := Some (f_status f)\<rparr>
        in closeForm (if editingTicket s \<noteq> None then handleUpdateTicket d s
                      else handleCreateTicket e d s))"

section \<open>\<^verbatim>\<open>TicketCard\<close> and \<^verbatim>\<open>ConfirmDialog\<close>\<close>

text \<open>
  \<^verbatim>\<open>getActionButton\<close>: the status that the card's button (Start or Complete) passes to
  \<^verbatim>\<open>onStatusChange\<close>; a completed ticket has no button.
\<close>

fun getActionButton :: "TicketStatus \<Rightarrow> TicketStatus option" where
  "getActionButton Created = Some UnderAssistance"
| "getActionButton UnderAssistance = Some Completed"
| "getActionButton Completed = None"

text \<open>\<^verbatim>\<open>!ticket.rating\<close>: a missing rating and the number 0 are falsy.\<close>

definition rating_falsy :: "int option \<Rightarrow> bool" where
  "rating_falsy r = (case r of None \<Rightarrow> True | Some n \<Rightarrow> n = 0)"

text \<open>
  A press on star \<open>star\<close> of the card of ticket \<open>t\<close>. The rating box is rendered only if
  the status is \<^verbatim>\<open>Completed\<close>; the stars are \<^verbatim>\<open>[1, 2, 3, 4, 5]\<close>; the press does
  \<^verbatim>\<open>editable && onRate?.(star)\<close> with \<^verbatim>\<open>editable = !ticket.rating\<close>.
\<close>

definition pressStar :: "Ticket \<Rightarrow> int \<Rightarrow> App \<Rightarrow> App" where
  "pressStar t star s =
     (if status t = Completed \<and> star \<in> {1, 2, 3, 4, 5} \<and> rating_falsy (rating t)
      then handleRate (id_t t) star s else s)"

text \<open>
  The Delete button of the dialog: \<^verbatim>\<open>onConfirm(); onClose()\<close>, where \<^verbatim>\<open>onConfirm\<close> is
  \<^verbatim>\<open>deleteConfirm.ticketId && handleDeleteTicket(deleteConfirm.ticketId)\<close> (an empty id
  is falsy) and \<^verbatim>\<open>onClose\<close> sets the cell to \<^verbatim>\<open>{ visible: false }\<close>.
\<close>

definition closeConfirm :: "App \<Rightarrow> App" where
  "closeConfirm s = s\<lparr>deleteConfirm := \<lparr>visible = False, ticketId = None\<rparr>\<rparr>"

definition confirmDelete :: "App \<Rightarrow> App" where
  "confirmDelete s =
     closeConfirm (case ticketId (deleteConfirm s) of
                     None \<Rightarrow> s
                   | Some i \<Rightarrow> if i = [] then s else handleDeleteTicket i s)"

section \<open>The application as a transition system\<close>

text \<open>
  One event is one user action. A card is named by its position in the rendered list.
  The cards and the add button call their handlers whenever they are pressed: the source
  has no test of \<^verbatim>\<open>isFormOpen\<close> or of \<^verbatim>\<open>deleteConfirm.visible\<close> there, so a press that
  arrives while a modal is shown acts like any other. The controls of the form exist
  only while the form is open, those of the dialog only while it is visible; such an
  event leaves the state as it is otherwise. The cells of the form take their initial
  values when the form is mounted, that is when its modal becomes visible, and keep
  their values as long as it stays mounted, also when its \<^verbatim>\<open>ticket\<close> prop changes.
\<close>

datatype Event =
    PressAdd
  | PressEdit nat
  | PressTrash nat
  | PressAction nat
  | PressStar nat int
  | ChangeTitle string
  | ChangeDescription string
  | PickStatus TicketStatus
  | PressSave Env
  | PressCancel
  | DialogCancel
  | DialogDelete

definition onMain :: "App \<Rightarrow> bool" where
  "onMain s = (\<not> isFormOpen s \<and> \<not> visible (deleteConfirm s))"

text \<open>The cells of the form after its modal was asked to show with ticket prop \<open>ticket\<close>.\<close>

definition mountForm :: "Ticket option \<Rightarrow> App \<Rightarrow> FormState" where
  "mountForm ticket s = (if isFormOpen s then form s else TicketForm_init ticket)"

fun step :: "Event \<Rightarrow> App \<Rightarrow> App" where
  "step PressAdd s = s\<lparr>isFormOpen := True, form := mountForm (editingTicket s) s\<rparr>"
| "step (PressEdit i) s =
     (if i < length (tickets s)
      then (openEditForm (tickets s ! i) s)\<lparr>form := mountForm (Some (tickets s ! i)) s\<rparr>
      else s)"
| "step (PressTrash i) s =
     (if i < length (tickets s)
      then s\<lparr>deleteConfirm := \<lparr>visible = True, ticketId = Some (id_t (tickets s ! i))\<rparr>\<rparr>
      else s)"
| "step (PressAction i) s =
     (if i < length (tickets s)
      then (case getActionButton (status (tickets s ! i)) of
              None \<Rightarrow> s
            | Some st \<Rightarrow> handleStatusChange (id_t (tickets s ! i)) st s)
      else s)"
| "step (PressStar i star) s =
     (if i < length (tickets s) then pressStar (tickets s ! i) star s else s)"
| "step (ChangeTitle txt) s =
     (if isFormOpen s \<and> canEditContent (editingTicket s)
      then s\<lparr>form := (form s)\<lparr>f_title := txt\<rparr>\<rparr> else s)"
| "step (ChangeDescription txt) s =
     (if isFormOpen s \<and> canEditContent (editingTicket s)
      then s\<lparr>form := (form s)\<lparr>f_description := txt\<rparr>\<rparr> else s)"
| "step (PickStatus st) s =
     (if isFormOpen s \<and> isEditing (editingTicket s)
      then s\<lparr>form := (form s)\<lparr>f_status := st\<rparr>\<rparr> else s)"
| "step (PressSave e) s = (if isFormOpen s then handleSubmit e s else s)"
| "step PressCancel s = (if isFormOpen s then closeForm s else s)"
| "step DialogCancel s = (if visible (deleteConfirm s) then closeConfirm s else s)"
| "step DialogDelete s = (if visible (deleteConfirm s) then confirmDelete s else s)"

definition initial :: App where
  "initial = \<lparr>tickets = SAMPLE_TICKETS, isFormOpen = False, editingTicket = None,
     deleteConfirm = \<lparr>visible = False, ticketId = None\<rparr>, form = TicketForm_init None\<rparr>"

text \<open>The state after a sequence of user actions, from the start of the session.\<close>

definition run :: "Event list \<Rightarrow> App" where
  "run evs = foldl (\<lambda>s ev. step ev s) initial evs"

text \<open>
  A session in which the cards and the add button are pressed only while neither the
  form nor the dialog is visible, as is the case when the visible modal covers them.
\<close>

fun is_screen_press :: "Event \<Rightarrow> bool" where
  "is_screen_press PressAdd = True"
| "is_screen_press (PressEdit i) = True"
| "is_screen_press (PressTrash i) = True"
| "is_screen_press (PressAction i) = True"
| "is_screen_press (PressStar i star) = True"
| "is_screen_press ev = False"

fun free_screen :: "App \<Rightarrow> Event list \<Rightarrow> bool" where
  "free_screen s [] = True"
| "free_screen s (ev # evs) = ((is_screen_press ev \<longrightarrow> onMain s) \<and> free_screen (step ev s) evs)"

section \<open>Sample inputs and state predicates used in the statements\<close>

text \<open>One reading of the clock and of the random source, and a second one in the same
  millisecond whose random text differs only after its eleventh character.\<close>

definition env_a :: Env where
  "env_a = \<lparr>now_ms = 1760000000000, random36 = ''0.4fzyo82mvyr'',
     today = \<lparr>fullYear = 2025, month = 9, date = 8, hours = 9, minutes = 5\<rparr>\<rparr>"

definition env_b :: Env where
  "env_b = \<lparr>now_ms = 1760000000000, random36 = ''0.4fzyo82mv3k'',
     today = \<lparr>fullYear = 2025, month = 9, date = 8, hours = 9, minutes = 5\<rparr>\<rparr>"

text \<open>A text that is neither empty nor white space only.\<close>

definition nonblank :: "string \<Rightarrow> bool" where
  "nonblank s = (s \<noteq> [] \<and> \<not> list_all is_ws s)"

definition content_ok :: "App \<Rightarrow> bool" where
  "content_ok s = list_all (\<lambda>t. nonblank (title t) \<and> nonblank (description t)) (tickets s)"

definition unique_ids :: "App \<Rightarrow> bool" where
  "unique_ids s = distinct (map id_t (tickets s))"

text \<open>No stored rating is 0: the stars give 1 to 5, the samples have 5 and 4.\<close>

definition rating_inv :: "App \<Rightarrow> bool" where
  "rating_inv s = list_all (\<lambda>t. rating t \<noteq> Some 0) (tickets s)"

text \<open>
  What holds of every state of a session with a free screen: outside the form no ticket
  is being edited; the form and the dialog are never visible together; a ticket being
  edited is a ticket of the collection, and if its status is not \<^verbatim>\<open>Created\<close> the form
  still shows its title and description; the stored texts are trimmed.
\<close>

definition trimmed :: "string \<Rightarrow> bool" where
  "trimmed s = (trim s = s)"

definition form_inv :: "App \<Rightarrow> bool" where
  "form_inv s =
     ((isFormOpen s \<or> editingTicket s = None)
      \<and> (isFormOpen s \<and> visible (deleteConfirm s)) = False
      \<and> (case editingTicket s of
            None \<Rightarrow> True
          | Some et \<Rightarrow>
              et \<in> set (tickets s)
              \<and> (status et = Created
                   \<or> (f_title (form s) = title et \<and> f_description (form s) = description et)))
      \<and> list_all (\<lambda>t. trimmed (title t) \<and> trimmed (description t)) (tickets s))"

text \<open>
  Two creations through the form that read the clock in the same millisecond and draw
  random texts with the same characters 3 to 11, and sessions that go on from there.
\<close>

definition two_creations :: "Event list" where
  "two_creations =
     [PressAdd, ChangeTitle ''Login bug'', ChangeDescription ''Button unresponsive'', PressSave env_a,
      PressAdd, ChangeTitle ''Printer jam'', ChangeDescription ''Tray 2'', PressSave env_b]"

text \<open>
  The edit form is opened on the third sample ticket, whose status is \<^verbatim>\<open>Created\<close>; the
  Start button of its card is pressed while the form is open; the title is changed.
\<close>

definition start_behind_form :: "Event list" where
  "start_behind_form = [PressEdit 2, PressAction 2, ChangeTitle ''Renamed'']"

definition edit_after_collision :: "Event list" where
  "edit_after_collision = two_creations @ [PressAction 0, PressEdit 0]"

definition rate_after_collision :: "Event list" where
  "rate_after_collision =
     [PressAdd, ChangeTitle ''Login bug'', ChangeDescription ''Button unresponsive'', PressSave env_a,
      PressAction 0, PressAction 0, PressStar 0 5,
      PressAdd, ChangeTitle ''Printer jam'', ChangeDescription ''Tray 2'', PressSave env_b,
      PressAction 0, PressAction 0]"


section \<open>Basic facts\<close>

lemma tickets_closeForm [simp]: "tickets (closeForm s) = tickets s"
  by (simp add: closeForm_def)

lemma map_if_absent:
  "k \<notin> set (map id_t xs) \<Longrightarrow> map (\<lambda>t. if id_t t = k then g t else t) xs = xs"
  by (induction xs) auto

lemma filter_absent: "k \<notin> set (map id_t xs) \<Longrightarrow> filter (\<lambda>t. id_t t \<noteq> k) xs = xs"
  by (induction xs) auto

lemmas app_defs = initial_def onMain_def mountForm_def TicketForm_init_def canEditContent_def
  isEditing_def
  handleSubmit_def handleCreateTicket_def handleUpdateTicket_def closeForm_def no_patch_def
  openEditForm_def handleStatusChange_def handleRate_def handleDeleteTicket_def
  pressStar_def rating_falsy_def closeConfirm_def confirmDelete_def spread_def Let_def

subsection \<open>Decimal rendering and the shape of an id\<close>

lemma digit_char_code: "d < 10 \<Longrightarrow> of_char (digit_char d) = 48 + d"
proof -
  assume "d < 10"
  then have "d \<in> {0, 1, 2, 3, 4, 5, 6, 7, 8, 9}" by auto
  then show ?thesis by (auto simp: digit_char_def)
qed

lemma digit_char_inj:
  assumes "a < 10" and "b < 10" and "digit_char a = digit_char b"
  shows "a = b"
proof -
  have "(of_char (digit_char a) :: nat) = of_char (digit_char b)"
    by (simp only: assms(3))
  then have "48 + a = 48 + b"
    by (simp only: digit_char_code [OF assms(1)] digit_char_code [OF assms(2)])
  then show ?thesis by simp
qed

lemma nat_digits_nonempty: "nat_digits n \<noteq> []"
  by (subst nat_digits.simps) simp


lemma nat_digits_inj: "nat_digits a = nat_digits b \<Longrightarrow> a = b"
proof (induction a arbitrary: b rule: nat_digits.induct)
  case (1 n)
  show ?case
  proof (cases "n < 10")
    case small: True
    show ?thesis
    proof (cases "b < 10")
      case True
      with small "1.prems" show ?thesis
        by (simp add: nat_digits.simps [of n] nat_digits.simps [of b] digit_char_inj)
    next
      case False
      with small "1.prems" nat_digits_nonempty [of "b div 10"] show ?thesis
        by (simp add: nat_digits.simps [of n] nat_digits.simps [of b])
    qed
  next
    case big: False
    show ?thesis
    proof (cases "b < 10")
      case True
      with big "1.prems" nat_digits_nonempty [of "n div 10"] show ?thesis
        by (simp add: nat_digits.simps [of n] nat_digits.simps [of b])
    next
      case False
      with big "1.prems" have eq: "nat_digits (n div 10) = nat_digits (b div 10)"
        and last: "digit_char (n mod 10) = digit_char (b mod 10)"
        by (simp_all add: nat_digits.simps [of n] nat_digits.simps [of b])
      from "1.IH" [OF big eq] have "n div 10 = b div 10" .
      moreover from last have "n mod 10 = b mod 10"
        by (auto intro: digit_char_inj)
      ultimately show ?thesis
        by (metis div_mult_mod_eq)
    qed
  qed
qed

lemma nat_digits_chars: "c \<in> set (nat_digits n) \<Longrightarrow> 48 \<le> (of_char c :: nat) \<and> (of_char c :: nat) \<le> 57"
proof (induction n rule: nat_digits.induct)
  case (1 n)
  show ?case
  proof (cases "n < 10")
    case True
    with "1.prems" show ?thesis
      by (simp add: nat_digits.simps [of n] digit_char_code)
  next
    case False
    with "1.prems" have "c \<in> set (nat_digits (n div 10)) \<or> c = digit_char (n mod 10)"
      by (auto simp: nat_digits.simps [of n])
    then show ?thesis
    proof
      assume "c \<in> set (nat_digits (n div 10))"
      with "1.IH" [OF False] show ?thesis .
    next
      assume "c = digit_char (n mod 10)"
      then show ?thesis by (simp add: digit_char_code)
    qed
  qed
qed

lemma String_of_inj: "String_of a = String_of b \<Longrightarrow> a = b"
proof -
  assume eq: "String_of a = String_of b"
  have nodash: "\<And>n. hd (nat_digits n) \<noteq> CHR ''-''"
  proof
    fix n assume h: "hd (nat_digits n) = CHR ''-''"
    have "hd (nat_digits n) \<in> set (nat_digits n)"
      using nat_digits_nonempty by simp
    from nat_digits_chars [OF this] h show False by simp
  qed
  show ?thesis
  proof (cases "a < 0"; cases "b < 0")
    assume "a < 0" "b < 0"
    with eq have "nat (- a) = nat (- b)" by (simp add: String_of_def nat_digits_inj)
    with \<open>a < 0\<close> \<open>b < 0\<close> show ?thesis by simp
  next
    assume "a < 0" "\<not> b < 0"
    with eq have "nat_digits (nat b) = CHR ''-'' # nat_digits (nat (- a))" by (simp add: String_of_def)
    then have "hd (nat_digits (nat b)) = CHR ''-''" by simp
    with nodash show ?thesis by blast
  next
    assume "\<not> a < 0" "b < 0"
    with eq have "nat_digits (nat a) = CHR ''-'' # nat_digits (nat (- b))" by (simp add: String_of_def)
    then have "hd (nat_digits (nat a)) = CHR ''-''" by simp
    with nodash show ?thesis by blast
  next
    assume "\<not> a < 0" "\<not> b < 0"
    with eq have "nat a = nat b" by (simp add: String_of_def nat_digits_inj)
    with \<open>\<not> a < 0\<close> \<open>\<not> b < 0\<close> show ?thesis by simp
  qed
qed

lemma String_of_no_underscore: "CHR ''_'' \<notin> set (String_of a)"
proof
  assume "CHR ''_'' \<in> set (String_of a)"
  then have "CHR ''_'' \<in> set (nat_digits (nat (- a))) \<or> CHR ''_'' \<in> set (nat_digits (nat a))"
    by (auto simp: String_of_def split: if_splits)
  then show False
    using nat_digits_chars [of "CHR ''_''"] by auto
qed

lemma split_at_mark:
  "c \<notin> set a \<Longrightarrow> c \<notin> set b \<Longrightarrow> a @ c # x = b @ c # y \<Longrightarrow> a = b \<and> x = y"
proof (induction a arbitrary: b)
  case Nil
  then show ?case by (cases b) auto
next
  case (Cons h a)
  then show ?case by (cases b) auto
qed

lemma generateId_eq_iff:
  "generateId e = generateId e' \<longleftrightarrow>
     now_ms e = now_ms e' \<and> substr 2 9 (random36 e) = substr 2 9 (random36 e')"
proof
  assume "generateId e = generateId e'"
  then have "String_of (now_ms e) @ CHR ''_'' # substr 2 9 (random36 e)
           = String_of (now_ms e') @ CHR ''_'' # substr 2 9 (random36 e')"
    by (simp add: generateId_def)
  from split_at_mark [OF String_of_no_underscore String_of_no_underscore this]
  show "now_ms e = now_ms e' \<and> substr 2 9 (random36 e) = substr 2 9 (random36 e')"
    by (auto dest: String_of_inj)
next
  assume "now_ms e = now_ms e' \<and> substr 2 9 (random36 e) = substr 2 9 (random36 e')"
  then show "generateId e = generateId e'" by (simp add: generateId_def)
qed

lemma formatDate_nonempty: "formatDate e \<noteq> []"
  by (simp add: formatDate_def Let_def)

subsection \<open>Trimming\<close>

lemma dropWhile_fix: "xs = [] \<or> \<not> P (hd xs) \<Longrightarrow> dropWhile P xs = xs"
  by (cases xs) auto

lemma trim_fix:
  assumes "xs = [] \<or> (\<not> is_ws (hd xs) \<and> \<not> is_ws (last xs))"
  shows "trim xs = xs"
proof (cases "xs = []")
  case True
  then show ?thesis by (simp add: trim_def)
next
  case False
  with assms have h: "\<not> is_ws (hd xs)" and l: "\<not> is_ws (last xs)" by auto
  from False h have a: "dropWhile is_ws xs = xs" by (simp add: dropWhile_fix)
  from False l have "\<not> is_ws (hd (rev xs))" by (simp add: hd_rev)
  then have "dropWhile is_ws (rev xs) = rev xs" by (simp add: dropWhile_fix)
  with a show ?thesis by (simp add: trim_def)
qed

lemma last_dropWhile_keep: "dropWhile P xs \<noteq> [] \<Longrightarrow> last (dropWhile P xs) = last xs"
  by (induction xs) (auto split: if_splits)

lemma trim_ends:
  assumes "trim s \<noteq> []"
  shows "\<not> is_ws (hd (trim s)) \<and> \<not> is_ws (last (trim s))"
proof -
  let ?d = "dropWhile is_ws s"
  let ?r = "dropWhile is_ws (rev ?d)"
  from assms have r: "?r \<noteq> []" by (simp add: trim_def)
  then have d: "?d \<noteq> []" by (metis dropWhile.simps(1) rev.simps(1))
  have "hd (trim s) = last ?r" using r by (simp add: trim_def hd_rev)
  also have "\<dots> = last (rev ?d)" using r by (rule last_dropWhile_keep)
  also have "\<dots> = hd ?d" using d by (simp add: last_rev)
  finally have "hd (trim s) = hd ?d" .
  moreover have "\<not> is_ws (hd ?d)" using d by (rule hd_dropWhile)
  moreover have "last (trim s) = hd ?r" using r by (simp add: trim_def last_rev)
  moreover have "\<not> is_ws (hd ?r)" using r by (rule hd_dropWhile)
  ultimately show ?thesis by simp
qed

lemma trimmed_trim: "trimmed (trim s)"
  unfolding trimmed_def using trim_ends [of s] by (intro trim_fix) blast

lemma nonblank_trim: "trim s \<noteq> [] \<Longrightarrow> nonblank (trim s)"
proof -
  assume ne: "trim s \<noteq> []"
  then have "hd (trim s) \<in> set (trim s)" by simp
  moreover from trim_ends [OF ne] have "\<not> is_ws (hd (trim s))" by simp
  ultimately have "\<not> list_all is_ws (trim s)" by (auto simp: list_all_iff)
  with ne show ?thesis by (simp add: nonblank_def)
qed

subsection \<open>Sessions\<close>

lemma run_Nil: "run [] = initial"
  by (simp add: run_def)

lemma run_snoc: "run (evs @ [ev]) = step ev (run evs)"
  by (simp add: run_def)

lemma list_all_map_if:
  assumes "list_all P xs" and "\<And>x. P x \<Longrightarrow> P (g x)"
  shows "list_all P (map (\<lambda>t. if id_t t = k then g t else t) xs)"
  using assms by (induction xs) auto

lemma unique_pick:
  "distinct (map id_t xs) \<Longrightarrow> x \<in> set xs \<Longrightarrow> y \<in> set xs \<Longrightarrow> id_t x = id_t y \<Longrightarrow> x = y"
  by (meson distinct_map inj_on_def)

subsection \<open>What one user action does to the collection\<close>

lemma step_shape:
  "(\<exists>news. tickets (step ev s) = news @ tickets s)
   \<or> (\<exists>k. tickets (step ev s) = filter (\<lambda>t. id_t t \<noteq> k) (tickets s))
   \<or> (\<exists>k st. tickets (step ev s)
          = map (\<lambda>t. if id_t t = k then t\<lparr>status := st\<rparr> else t) (tickets s))
   \<or> (\<exists>c star. c \<in> set (tickets s) \<and> rating_falsy (rating c) \<and> star \<noteq> 0
          \<and> tickets (step ev s)
              = map (\<lambda>t. if id_t t = id_t c then t\<lparr>rating := Some star\<rparr> else t) (tickets s))
   \<or> (\<exists>et. editingTicket s = Some et
          \<and> tickets (step ev s)
              = map (\<lambda>t. if id_t t = id_t et
                          then spread t (no_patch\<lparr>p_title := Some (trim (f_title (form s))),
                                 p_description := Some (trim (f_description (form s))),
                                 p_status := Some (f_status (form s))\<rparr>)
                          else t) (tickets s))"
proof (cases ev)
  case (PressAction i)
  show ?thesis
  proof (cases "i < length (tickets s)")
    case False
    with PressAction have "tickets (step ev s) = [] @ tickets s" by auto
    then show ?thesis by blast
  next
    case True
    show ?thesis
    proof (cases "getActionButton (status (tickets s ! i))")
      case None
      with True PressAction have "tickets (step ev s) = [] @ tickets s" by auto
      then show ?thesis by blast
    next
      case (Some st)
      with True PressAction have "tickets (step ev s)
          = map (\<lambda>t. if id_t t = id_t (tickets s ! i) then t\<lparr>status := st\<rparr> else t) (tickets s)"
        by (simp add: handleStatusChange_def)
      then show ?thesis by blast
    qed
  qed
next
  case (PressStar i star)
  show ?thesis
  proof (cases "i < length (tickets s) \<and> status (tickets s ! i) = Completed
                 \<and> star \<in> {1, 2, 3, 4, 5} \<and> rating_falsy (rating (tickets s ! i))")
    case False
    with PressStar have "tickets (step ev s) = [] @ tickets s" by (auto simp: pressStar_def)
    then show ?thesis by blast
  next
    case True
    then have "tickets s ! i \<in> set (tickets s)" and "rating_falsy (rating (tickets s ! i))"
      and "star \<noteq> 0" by auto
    moreover from True PressStar have "tickets (step ev s)
        = map (\<lambda>t. if id_t t = id_t (tickets s ! i) then t\<lparr>rating := Some star\<rparr> else t) (tickets s)"
      by (simp add: pressStar_def handleRate_def)
    ultimately show ?thesis by blast
  qed
next
  case (PressSave e)
  show ?thesis
  proof (cases "isFormOpen s \<and> trim (f_title (form s)) \<noteq> [] \<and> trim (f_description (form s)) \<noteq> []")
    case False
    with PressSave have "tickets (step ev s) = [] @ tickets s" by (auto simp: handleSubmit_def Let_def)
    then show ?thesis by blast
  next
    case True
    show ?thesis
    proof (cases "editingTicket s")
      case None
      with True PressSave have "\<exists>new. tickets (step ev s) = [new] @ tickets s"
        by (simp add: handleSubmit_def Let_def handleCreateTicket_def)
      then show ?thesis by blast
    next
      case (Some et)
      with True PressSave have "tickets (step ev s)
          = map (\<lambda>t. if id_t t = id_t et
                      then spread t (no_patch\<lparr>p_title := Some (trim (f_title (form s))),
                             p_description := Some (trim (f_description (form s))),
                             p_status := Some (f_status (form s))\<rparr>)
                      else t) (tickets s)"
        by (simp add: handleSubmit_def Let_def handleUpdateTicket_def)
      with Some show ?thesis by blast
    qed
  qed
next
  case DialogDelete
  show ?thesis
  proof (cases "visible (deleteConfirm s) \<and> (\<exists>k. ticketId (deleteConfirm s) = Some k \<and> k \<noteq> [])")
    case False
    with DialogDelete have "tickets (step ev s) = [] @ tickets s"
      by (auto simp: confirmDelete_def closeConfirm_def split: option.splits)
    then show ?thesis by blast
  next
    case True
    with DialogDelete have "\<exists>k. tickets (step ev s) = filter (\<lambda>t. id_t t \<noteq> k) (tickets s)"
      by (auto simp: confirmDelete_def closeConfirm_def handleDeleteTicket_def)
    then show ?thesis by blast
  qed
next
  case PressAdd
  then have "tickets (step ev s) = [] @ tickets s" by simp
  then show ?thesis by blast
next
  case (PressEdit i)
  then have "tickets (step ev s) = [] @ tickets s" by (simp add: openEditForm_def)
  then show ?thesis by blast
next
  case (PressTrash i)
  then have "tickets (step ev s) = [] @ tickets s" by simp
  then show ?thesis by blast
next
  case (ChangeTitle v)
  then have "tickets (step ev s) = [] @ tickets s" by simp
  then show ?thesis by blast
next
  case (ChangeDescription v)
  then have "tickets (step ev s) = [] @ tickets s" by simp
  then show ?thesis by blast
next
  case (PickStatus st)
  then have "tickets (step ev s) = [] @ tickets s" by simp
  then show ?thesis by blast
next
  case PressCancel
  then have "tickets (step ev s) = [] @ tickets s" by simp
  then show ?thesis by blast
next
  case DialogCancel
  then have "tickets (step ev s) = [] @ tickets s" by (simp add: closeConfirm_def)
  then show ?thesis by blast
qed

subsection \<open>Ratings\<close>

lemma rating_inv_initial: "rating_inv initial"
  by (simp add: rating_inv_def initial_def SAMPLE_TICKETS_def)

lemma rating_inv_step:
  assumes inv: "rating_inv s"
  shows "rating_inv (step ev s)"
proof (cases ev)
  case (PressAction i)
  have "\<And>st k. list_all (\<lambda>t. rating t \<noteq> Some 0)
          (map (\<lambda>t. if id_t t = k then t\<lparr>status := st\<rparr> else t) (tickets s))"
    using inv by (intro list_all_map_if) (simp_all add: rating_inv_def)
  with inv PressAction show ?thesis
    by (auto simp: rating_inv_def handleStatusChange_def split: option.splits)
next
  case (PressStar i star)
  have "\<And>k. star \<noteq> 0 \<Longrightarrow> list_all (\<lambda>t. rating t \<noteq> Some 0)
          (map (\<lambda>t. if id_t t = k then t\<lparr>rating := Some star\<rparr> else t) (tickets s))"
    using inv by (intro list_all_map_if) (simp_all add: rating_inv_def)
  with inv PressStar show ?thesis
    by (auto simp: rating_inv_def pressStar_def handleRate_def)
next
  case (PressSave e)
  have "\<And>k d. p_rating d = None \<Longrightarrow> list_all (\<lambda>t. rating t \<noteq> Some 0)
          (map (\<lambda>t. if id_t t = k then spread t d else t) (tickets s))"
    using inv by (intro list_all_map_if) (simp_all add: rating_inv_def spread_def)
  with inv PressSave show ?thesis
    by (auto simp: rating_inv_def handleSubmit_def Let_def handleCreateTicket_def
        handleUpdateTicket_def closeForm_def no_patch_def split: option.splits)
next
  case DialogDelete
  with inv show ?thesis
    by (auto simp: rating_inv_def confirmDelete_def closeConfirm_def handleDeleteTicket_def
        list_all_iff split: option.splits)
next
  case PressAdd
  with inv show ?thesis by (simp add: rating_inv_def)
next
  case (PressEdit i)
  with inv show ?thesis by (simp add: rating_inv_def openEditForm_def)
next
  case (PressTrash i)
  with inv show ?thesis by (simp add: rating_inv_def)
next
  case (ChangeTitle v)
  with inv show ?thesis by (simp add: rating_inv_def)
next
  case (ChangeDescription v)
  with inv show ?thesis by (simp add: rating_inv_def)
next
  case (PickStatus st)
  with inv show ?thesis by (simp add: rating_inv_def)
next
  case PressCancel
  with inv show ?thesis by (simp add: rating_inv_def)
next
  case DialogCancel
  with inv show ?thesis by (simp add: rating_inv_def closeConfirm_def)
qed

lemma rating_inv_run: "rating_inv (run evs)"
  by (induction evs rule: rev_induct)
    (simp_all add: run_Nil run_snoc rating_inv_initial rating_inv_step)

lemma step_keeps_rating:
  assumes inv: "rating_inv s" and pre: "unique_ids s" and post: "unique_ids (step ev s)"
    and t: "t \<in> set (tickets s)" and t': "t' \<in> set (tickets (step ev s))"
    and same: "id_t t' = id_t t" and rated: "rating t = Some r"
  shows "rating t' = Some r"
proof -
  have pick: "\<And>x. x \<in> set (tickets s) \<Longrightarrow> id_t x = id_t t \<Longrightarrow> x = t"
    using pre t by (auto simp: unique_ids_def intro: unique_pick)
  from inv t rated have nonzero: "r \<noteq> 0" by (auto simp: rating_inv_def list_all_iff)
  from step_shape [of ev s] show ?thesis
  proof (elim disjE exE conjE)
    fix news assume "tickets (step ev s) = news @ tickets s"
    with t have "t \<in> set (tickets (step ev s))" by simp
    with post t' same have "t' = t" by (auto simp: unique_ids_def intro: unique_pick)
    with rated show ?thesis by simp
  next
    fix k assume "tickets (step ev s) = filter (\<lambda>t. id_t t \<noteq> k) (tickets s)"
    with t' have "t' \<in> set (tickets s)" by simp
    with same have "t' = t" by (intro pick)
    with rated show ?thesis by simp
  next
    fix k st
    assume "tickets (step ev s)
          = map (\<lambda>t. if id_t t = k then t\<lparr>status := st\<rparr> else t) (tickets s)"
    with t' obtain x where x: "x \<in> set (tickets s)"
      and t'x: "t' = (if id_t x = k then x\<lparr>status := st\<rparr> else x)" by auto
    from t'x same have "id_t x = id_t t" by (simp split: if_splits)
    with x have "x = t" by (intro pick)
    with t'x rated show ?thesis by simp
  next
    fix c star
    assume c: "c \<in> set (tickets s)" and falsy: "rating_falsy (rating c)"
      and "tickets (step ev s)
          = map (\<lambda>t. if id_t t = id_t c then t\<lparr>rating := Some star\<rparr> else t) (tickets s)"
    with t' obtain x where x: "x \<in> set (tickets s)"
      and t'x: "t' = (if id_t x = id_t c then x\<lparr>rating := Some star\<rparr> else x)" by auto
    from t'x same have "id_t x = id_t t" by (simp split: if_splits)
    with x have xt: "x = t" by (intro pick)
    have "id_t t \<noteq> id_t c"
    proof
      assume "id_t t = id_t c"
      with c have "c = t" by (intro pick) simp_all
      with falsy rated nonzero show False by (simp add: rating_falsy_def)
    qed
    with t'x xt rated show ?thesis by simp
  next
    fix et
    assume "tickets (step ev s)
          = map (\<lambda>t. if id_t t = id_t et
                      then spread t (no_patch\<lparr>p_title := Some (trim (f_title (form s))),
                             p_description := Some (trim (f_description (form s))),
                             p_status := Some (f_status (form s))\<rparr>)
                      else t) (tickets s)"
    with t' obtain x where x: "x \<in> set (tickets s)"
      and t'x: "t' = (if id_t x = id_t et
                      then spread x (no_patch\<lparr>p_title := Some (trim (f_title (form s))),
                             p_description := Some (trim (f_description (form s))),
                             p_status := Some (f_status (form s))\<rparr>)
                      else x)" by auto
    from t'x same have "id_t x = id_t t" by (simp add: spread_def no_patch_def split: if_splits)
    with x have "x = t" by (intro pick)
    with t'x rated show ?thesis by (simp add: spread_def no_patch_def)
  qed
qed

subsection \<open>Sessions with a free screen\<close>

lemma free_screen_snoc:
  "free_screen s (evs @ [ev])
     = (free_screen s evs \<and> (is_screen_press ev \<longrightarrow> onMain (foldl (\<lambda>s ev. step ev s) s evs)))"
  by (induction evs arbitrary: s) auto

lemma form_inv_initial: "form_inv initial"
  by (simp add: form_inv_def initial_def SAMPLE_TICKETS_def trimmed_def trim_def is_ws_def)

lemma form_inv_handleSubmit:
  assumes "form_inv s" and "isFormOpen s"
  shows "form_inv (handleSubmit e s)"
proof (cases "trim (f_title (form s)) = [] \<or> trim (f_description (form s)) = []")
  case True
  with assms show ?thesis by (simp add: handleSubmit_def Let_def)
next
  case False
  show ?thesis
  proof (cases "editingTicket s")
    case None
    with False assms show ?thesis
      by (simp add: handleSubmit_def Let_def form_inv_def handleCreateTicket_def closeForm_def
          no_patch_def trimmed_trim)
  next
    case (Some et)
    have "list_all (\<lambda>t. trimmed (title t) \<and> trimmed (description t))
            (map (\<lambda>t. if id_t t = id_t et
                       then spread t (no_patch\<lparr>p_title := Some (trim (f_title (form s))),
                              p_description := Some (trim (f_description (form s))),
                              p_status := Some (f_status (form s))\<rparr>)
                       else t) (tickets s))"
      using assms(1)
      by (intro list_all_map_if) (simp_all add: form_inv_def spread_def no_patch_def trimmed_trim)
    with Some False assms show ?thesis
      by (simp add: handleSubmit_def Let_def form_inv_def handleUpdateTicket_def closeForm_def)
  qed
qed

lemma form_inv_step:
  assumes inv: "form_inv s" and free: "is_screen_press ev \<longrightarrow> onMain s"
  shows "form_inv (step ev s)"
proof (cases ev)
  case PressAdd
  with inv free show ?thesis
    by (auto simp: form_inv_def onMain_def mountForm_def TicketForm_init_def)
next
  case (PressEdit i)
  with inv free show ?thesis
    by (auto simp: form_inv_def onMain_def mountForm_def TicketForm_init_def openEditForm_def)
next
  case (PressTrash i)
  with inv free show ?thesis
    by (auto simp: form_inv_def onMain_def)
next
  case (PressAction i)
  with free have main: "onMain s" by simp
  then have closed: "editingTicket s = None" using inv by (auto simp: form_inv_def onMain_def)
  have "\<And>st k. list_all (\<lambda>t. trimmed (title t) \<and> trimmed (description t))
          (map (\<lambda>t. if id_t t = k then t\<lparr>status := st\<rparr> else t) (tickets s))"
    using inv by (intro list_all_map_if) (simp_all add: form_inv_def)
  with closed inv PressAction show ?thesis
    by (auto simp: form_inv_def handleStatusChange_def split: option.splits)
next
  case (PressStar i star)
  with free have main: "onMain s" by simp
  then have closed: "editingTicket s = None" using inv by (auto simp: form_inv_def onMain_def)
  have "\<And>k. list_all (\<lambda>t. trimmed (title t) \<and> trimmed (description t))
          (map (\<lambda>t. if id_t t = k then t\<lparr>rating := Some star\<rparr> else t) (tickets s))"
    using inv by (intro list_all_map_if) (simp_all add: form_inv_def)
  with closed inv PressStar show ?thesis
    by (auto simp: form_inv_def pressStar_def handleRate_def)
next
  case (ChangeTitle v)
  with inv show ?thesis
    by (auto simp: form_inv_def canEditContent_def split: option.splits)
next
  case (ChangeDescription v)
  with inv show ?thesis
    by (auto simp: form_inv_def canEditContent_def split: option.splits)
next
  case (PickStatus st)
  with inv show ?thesis
    by (auto simp: form_inv_def split: option.splits)
next
  case (PressSave e)
  with inv show ?thesis
    by (simp add: form_inv_handleSubmit)
next
  case PressCancel
  with inv show ?thesis
    by (auto simp: form_inv_def closeForm_def)
next
  case DialogCancel
  with inv show ?thesis
    by (auto simp: form_inv_def closeConfirm_def split: option.splits)
next
  case DialogDelete
  show ?thesis
  proof (cases "visible (deleteConfirm s)")
    case False
    with inv DialogDelete show ?thesis by simp
  next
    case True
    then have closed: "editingTicket s = None" "\<not> isFormOpen s"
      using inv by (auto simp: form_inv_def)
    with True inv DialogDelete show ?thesis
      by (auto simp: form_inv_def confirmDelete_def closeConfirm_def handleDeleteTicket_def
          list_all_iff split: option.splits)
  qed
qed

lemma form_inv_run: "free_screen initial evs \<Longrightarrow> form_inv (run evs)"
proof (induction evs rule: rev_induct)
  case Nil
  show ?case by (simp add: run_Nil form_inv_initial)
next
  case (snoc ev evs)
  from snoc.prems have "free_screen initial evs" and "is_screen_press ev \<longrightarrow> onMain (run evs)"
    by (simp_all add: free_screen_snoc run_def)
  with snoc.IH show ?case by (simp add: run_snoc form_inv_step)
qed

lemma step_keeps_content:
  assumes inv: "form_inv s" and pre: "unique_ids s" and post: "unique_ids (step ev s)"
    and t: "t \<in> set (tickets s)" and t': "t' \<in> set (tickets (step ev s))"
    and same: "id_t t' = id_t t" and progressed: "status t \<noteq> Created"
  shows "title t' = title t \<and> description t' = description t"
proof -
  have pick: "\<And>x. x \<in> set (tickets s) \<Longrightarrow> id_t x = id_t t \<Longrightarrow> x = t"
    using pre t by (auto simp: unique_ids_def intro: unique_pick)
  from step_shape [of ev s] show ?thesis
  proof (elim disjE exE conjE)
    fix news assume "tickets (step ev s) = news @ tickets s"
    with t have "t \<in> set (tickets (step ev s))" by simp
    with post t' same have "t' = t" by (auto simp: unique_ids_def intro: unique_pick)
    then show ?thesis by simp
  next
    fix k assume "tickets (step ev s) = filter (\<lambda>t. id_t t \<noteq> k) (tickets s)"
    with t' have "t' \<in> set (tickets s)" by simp
    with same have "t' = t" by (intro pick)
    then show ?thesis by simp
  next
    fix k st
    assume "tickets (step ev s)
          = map (\<lambda>t. if id_t t = k then t\<lparr>status := st\<rparr> else t) (tickets s)"
    with t' obtain x where x: "x \<in> set (tickets s)"
      and t'x: "t' = (if id_t x = k then x\<lparr>status := st\<rparr> else x)" by auto
    from t'x same have "id_t x = id_t t" by (simp split: if_splits)
    with x have "x = t" by (intro pick)
    with t'x show ?thesis by simp
  next
    fix c star
    assume "tickets (step ev s)
          = map (\<lambda>t. if id_t t = id_t c then t\<lparr>rating := Some star\<rparr> else t) (tickets s)"
    with t' obtain x where x: "x \<in> set (tickets s)"
      and t'x: "t' = (if id_t x = id_t c then x\<lparr>rating := Some star\<rparr> else x)" by auto
    from t'x same have "id_t x = id_t t" by (simp split: if_splits)
    with x have "x = t" by (intro pick)
    with t'x show ?thesis by simp
  next
    fix et
    assume et: "editingTicket s = Some et"
      and "tickets (step ev s)
          = map (\<lambda>t. if id_t t = id_t et
                      then spread t (no_patch\<lparr>p_title := Some (trim (f_title (form s))),
                             p_description := Some (trim (f_description (form s))),
                             p_status := Some (f_status (form s))\<rparr>)
                      else t) (tickets s)"
    with t' obtain x where x: "x \<in> set (tickets s)"
      and t'x: "t' = (if id_t x = id_t et
                      then spread x (no_patch\<lparr>p_title := Some (trim (f_title (form s))),
                             p_description := Some (trim (f_description (form s))),
                             p_status := Some (f_status (form s))\<rparr>)
                      else x)" by auto
    from t'x same have "id_t x = id_t t" by (simp add: spread_def no_patch_def split: if_splits)
    with x have xt: "x = t" by (intro pick)
    show ?thesis
    proof (cases "id_t t = id_t et")
      case False
      with t'x xt show ?thesis by simp
    next
      case True
      from inv et have mem: "et \<in> set (tickets s)"
        and shown: "status et = Created
                    \<or> (f_title (form s) = title et \<and> f_description (form s) = description et)"
        by (simp_all add: form_inv_def)
      from mem True have "et = t" by (intro pick) simp_all
      with shown progressed have fm: "f_title (form s) = title t"
        "f_description (form s) = description t" by auto
      from inv t have tr: "trim (title t) = title t" "trim (description t) = description t"
        by (auto simp: form_inv_def list_all_iff trimmed_def)
      from t'x xt True have "title t' = trim (f_title (form s))"
        and "description t' = trim (f_description (form s))"
        by (simp_all add: spread_def no_patch_def)
      then show ?thesis by (simp only: fm tr)
    qed
  qed
qed

subsection \<open>The content invariant\<close>

lemma content_ok_step: "content_ok s \<Longrightarrow> content_ok (step ev s)"
proof (cases ev)
  case (PressSave e)
  assume ok: "content_ok s"
  show ?thesis
  proof (cases "isFormOpen s \<and> trim (f_title (form s)) \<noteq> [] \<and> trim (f_description (form s)) \<noteq> []")
    case False
    with ok PressSave show ?thesis by (auto simp: handleSubmit_def Let_def)
  next
    case True
    show ?thesis
    proof (cases "editingTicket s")
      case None
      with True ok PressSave show ?thesis
        by (simp add: handleSubmit_def Let_def handleCreateTicket_def closeForm_def content_ok_def
            no_patch_def nonblank_trim)
    next
      case (Some et)
      have "list_all (\<lambda>t. nonblank (title t) \<and> nonblank (description t))
              (map (\<lambda>t. if id_t t = id_t et
                         then spread t (no_patch\<lparr>p_title := Some (trim (f_title (form s))),
                                p_description := Some (trim (f_description (form s))),
                                p_status := Some (f_status (form s))\<rparr>)
                         else t) (tickets s))"
        using ok True
        by (intro list_all_map_if) (simp_all add: content_ok_def spread_def no_patch_def nonblank_trim)
      with Some True PressSave show ?thesis
        by (simp add: handleSubmit_def Let_def handleUpdateTicket_def closeForm_def content_ok_def)
    qed
  qed
next
  case (PressAction i)
  assume ok: "content_ok s"
  have "\<And>st k. list_all (\<lambda>t. nonblank (title t) \<and> nonblank (description t))
          (map (\<lambda>t. if id_t t = k then t\<lparr>status := st\<rparr> else t) (tickets s))"
    using ok by (intro list_all_map_if) (simp_all add: content_ok_def)
  with ok PressAction show ?thesis
    by (auto simp: content_ok_def handleStatusChange_def split: option.splits)
next
  case (PressStar i star)
  assume ok: "content_ok s"
  have "\<And>k. list_all (\<lambda>t. nonblank (title t) \<and> nonblank (description t))
          (map (\<lambda>t. if id_t t = k then t\<lparr>rating := Some star\<rparr> else t) (tickets s))"
    using ok by (intro list_all_map_if) (simp_all add: content_ok_def)
  with ok PressStar show ?thesis
    by (auto simp: content_ok_def pressStar_def handleRate_def)
next
  case DialogDelete
  assume "content_ok s" with DialogDelete show ?thesis
    by (auto simp: content_ok_def confirmDelete_def closeConfirm_def handleDeleteTicket_def
        list_all_iff split: option.splits)
next
  case PressAdd
  assume "content_ok s" with PressAdd show ?thesis by (simp add: content_ok_def)
next
  case (PressEdit i)
  assume "content_ok s" with PressEdit show ?thesis
    by (simp add: content_ok_def openEditForm_def)
next
  case (PressTrash i)
  assume "content_ok s" with PressTrash show ?thesis by (simp add: content_ok_def)
next
  case (ChangeTitle v)
  assume "content_ok s" with ChangeTitle show ?thesis by (simp add: content_ok_def)
next
  case (ChangeDescription v)
  assume "content_ok s" with ChangeDescription show ?thesis by (simp add: content_ok_def)
next
  case (PickStatus st)
  assume "content_ok s" with PickStatus show ?thesis by (simp add: content_ok_def)
next
  case PressCancel
  assume "content_ok s" with PressCancel show ?thesis by (simp add: content_ok_def)
next
  case DialogCancel
  assume "content_ok s" with DialogCancel show ?thesis by (simp add: content_ok_def closeConfirm_def)
qed

lemma content_ok_initial: "content_ok initial"
  by (simp add: content_ok_def nonblank_def initial_def SAMPLE_TICKETS_def is_ws_def)

lemma content_ok_run: "content_ok (run evs)"
  by (induction evs rule: rev_induct) (simp_all add: run_Nil run_snoc content_ok_initial content_ok_step)

subsection \<open>Evaluating the sample sessions\<close>

lemma generateId_env_a: "generateId env_a = ''ticket_1760000000000_4fzyo82mv''"
  by (simp add: generateId_def env_a_def String_of_def nat_digits.simps digit_char_def substr_def)

lemma generateId_env_b: "generateId env_b = ''ticket_1760000000000_4fzyo82mv''"
  by (simp add: generateId_def env_b_def String_of_def nat_digits.simps digit_char_def substr_def)

lemma formatDate_env_a: "formatDate env_a = ''2025-10-08 09:05''"
  by (simp add: formatDate_def env_a_def String_of_def nat_digits.simps digit_char_def padStart_def)

lemma formatDate_env_b: "formatDate env_b = ''2025-10-08 09:05''"
  by (simp add: formatDate_def env_b_def String_of_def nat_digits.simps digit_char_def padStart_def)

lemmas run_simps = run_def app_defs trim_def is_ws_def SAMPLE_TICKETS_def
  generateId_env_a generateId_env_b formatDate_env_a formatDate_env_b

section \<open>Creation through the form\<close>

text \<open>
  Claim C2. A creation whose title or description is empty after trimming does nothing:
  \<^verbatim>\<open>handleSubmit\<close> returns before it calls \<^verbatim>\<open>onSave\<close>, so the whole state, and with it the
  collection and its size, is what it was. The handler has no error result: it is a total
  function of the state.
\<close>

theorem create_blank_is_noop:
  assumes "trim (f_title (form s)) = [] \<or> trim (f_description (form s)) = []"
  shows "handleSubmit e s = s \<and> step (PressSave e) s = s"
  using assms by (simp add: handleSubmit_def Let_def)

theorem create_blank_is_noop_witness:
  "trim (f_title (form (step (ChangeDescription '' '') (step (ChangeTitle '' '') (step PressAdd initial))))) = []
   \<and> length (tickets (handleSubmit env_a
        (step (ChangeDescription '' '') (step (ChangeTitle '' '') (step PressAdd initial))))) = 5
   \<and> step (PressSave env_a)
        (step (ChangeDescription '' '') (step (ChangeTitle '' '') (step PressAdd initial)))
       = step (ChangeDescription '' '') (step (ChangeTitle '' '') (step PressAdd initial))"
  using create_blank_is_noop
    [of "step (ChangeDescription '' '') (step (ChangeTitle '' '') (step PressAdd initial))" env_a]
  by (simp add: initial_def onMain_def TicketForm_init_def canEditContent_def trim_def is_ws_def
      SAMPLE_TICKETS_def)

text \<open>
  Claim C3. A successful creation puts the new ticket at the head of the collection; the
  tickets that were there follow it, unchanged and in their order.
\<close>

theorem create_prepends:
  assumes "editingTicket s = None"
    and "trim (f_title (form s)) \<noteq> []" and "trim (f_description (form s)) \<noteq> []"
  shows "tickets (handleSubmit e s) \<noteq> []
       \<and> tl (tickets (handleSubmit e s)) = tickets s
       \<and> title (hd (tickets (handleSubmit e s))) = trim (f_title (form s))
       \<and> description (hd (tickets (handleSubmit e s))) = trim (f_description (form s))"
  using assms by (simp add: handleSubmit_def Let_def handleCreateTicket_def no_patch_def)

theorem create_prepends_witness:
  "editingTicket (step (ChangeDescription ''Y'') (step (ChangeTitle ''X'') (step PressAdd initial))) = None
   \<and> map id_t (tl (tickets (handleSubmit env_a
         (step (ChangeDescription ''Y'') (step (ChangeTitle ''X'') (step PressAdd initial))))))
       = [''1'', ''2'', ''3'', ''4'', ''5'']
   \<and> title (hd (tickets (handleSubmit env_a
         (step (ChangeDescription ''Y'') (step (ChangeTitle ''X'') (step PressAdd initial)))))) = ''X''"
  using create_prepends
    [of "step (ChangeDescription ''Y'') (step (ChangeTitle ''X'') (step PressAdd initial))" env_a]
  by (simp add: app_defs trim_def is_ws_def SAMPLE_TICKETS_def)

text \<open>
  Claim C1, as amended. A creation whose title and description are not empty after
  trimming puts a ticket at the head of the collection whose status is \<^verbatim>\<open>Created\<close>, whose
  rating is absent, whose \<^verbatim>\<open>createdAt\<close> is not empty and whose id is the text \<^verbatim>\<open>ticket_\<close>,
  the clock reading in milliseconds, an underscore and characters 3 to 11 of the random
  text. Two generated ids are equal exactly when the two clock readings are equal and the
  two random texts agree on these characters: an id is new whenever one of them differs,
  and not otherwise.
\<close>

theorem create_ticket_fields:
  assumes "editingTicket s = None"
    and "trim (f_title (form s)) \<noteq> []" and "trim (f_description (form s)) \<noteq> []"
  shows "status (hd (tickets (handleSubmit e s))) = Created
       \<and> rating (hd (tickets (handleSubmit e s))) = None
       \<and> createdAt (hd (tickets (handleSubmit e s))) \<noteq> []
       \<and> id_t (hd (tickets (handleSubmit e s))) = generateId e
       \<and> (\<forall>e'. (generateId e' = generateId e)
              = (now_ms e' = now_ms e \<and> substr 2 9 (random36 e') = substr 2 9 (random36 e)))"
  using assms
  by (simp add: handleSubmit_def Let_def handleCreateTicket_def no_patch_def formatDate_nonempty
      generateId_eq_iff)

theorem create_ticket_fields_witness:
  "editingTicket (run [PressAdd, ChangeTitle ''Login bug'', ChangeDescription ''Button unresponsive'']) = None
   \<and> status (hd (tickets (handleSubmit env_a
        (run [PressAdd, ChangeTitle ''Login bug'', ChangeDescription ''Button unresponsive''])))) = Created
   \<and> rating (hd (tickets (handleSubmit env_a
        (run [PressAdd, ChangeTitle ''Login bug'', ChangeDescription ''Button unresponsive''])))) = None
   \<and> createdAt (hd (tickets (handleSubmit env_a
        (run [PressAdd, ChangeTitle ''Login bug'', ChangeDescription ''Button unresponsive''])))) = ''2025-10-08 09:05''
   \<and> id_t (hd (tickets (handleSubmit env_a
        (run [PressAdd, ChangeTitle ''Login bug'', ChangeDescription ''Button unresponsive''])))) = ''ticket_1760000000000_4fzyo82mv''"
proof -
  let ?s = "run [PressAdd, ChangeTitle ''Login bug'', ChangeDescription ''Button unresponsive'']"
  have h1: "editingTicket ?s = None" by (simp add: run_simps)
  have h2: "trim (f_title (form ?s)) \<noteq> []" by (simp add: run_simps)
  have h3: "trim (f_description (form ?s)) \<noteq> []" by (simp add: run_simps)
  have v1: "createdAt (hd (tickets (handleSubmit env_a ?s))) = ''2025-10-08 09:05''" by (simp add: run_simps)
  note v2 = generateId_env_a
  from create_ticket_fields [OF h1 h2 h3, of env_a] h1 v1 v2 show ?thesis by simp
qed

text \<open>
  Claim C1 as stated fails: two creations in the same millisecond whose random texts
  differ only after the eleventh character give two tickets with one id.
\<close>

theorem id_not_always_fresh:
  "title (tickets (run two_creations) ! 0) = ''Printer jam''
   \<and> title (tickets (run two_creations) ! 1) = ''Login bug''
   \<and> id_t (tickets (run two_creations) ! 1) = ''ticket_1760000000000_4fzyo82mv''
   \<and> id_t (tickets (run two_creations) ! 0) = ''ticket_1760000000000_4fzyo82mv''
   \<and> random36 env_a \<noteq> random36 env_b"
proof -
  have "random36 env_a \<noteq> random36 env_b"
    by (simp add: env_a_def env_b_def)
  then show ?thesis
    by (simp add: two_creations_def run_simps)
qed


section \<open>The store handlers\<close>

text \<open>
  Claim C4. \<^verbatim>\<open>handleStatusChange\<close> writes the given status into the ticket with the given
  id whatever its status was, and so does \<^verbatim>\<open>handleUpdateTicket\<close> with a patch that carries
  a status, for the ticket being edited. Neither looks at the old status; the witness
  sets a completed ticket back to \<^verbatim>\<open>Created\<close> both ways.
\<close>

theorem setStatus_overwrites:
  assumes "i < length (tickets s)" and "id_t (tickets s ! i) = k"
    and "id_t et = k" and "p_status d = Some st"
  shows "length (tickets (handleStatusChange k st s)) = length (tickets s)
       \<and> status (tickets (handleStatusChange k st s) ! i) = st
       \<and> length (tickets (handleUpdateTicket d (s\<lparr>editingTicket := Some et\<rparr>))) = length (tickets s)
       \<and> status (tickets (handleUpdateTicket d (s\<lparr>editingTicket := Some et\<rparr>)) ! i) = st"
  using assms by (simp add: handleStatusChange_def handleUpdateTicket_def spread_def)

theorem setStatus_overwrites_witness:
  "status (tickets initial ! 0) = Completed
   \<and> id_t (tickets initial ! 0) = ''1''
   \<and> status (tickets (handleStatusChange ''1'' Created initial) ! 0) = Created
   \<and> status (tickets (handleUpdateTicket (no_patch\<lparr>p_status := Some Created\<rparr>)
        (initial\<lparr>editingTicket := Some (SAMPLE_TICKETS ! 0)\<rparr>)) ! 0) = Created"
  using setStatus_overwrites
    [of 0 initial "''1''" "SAMPLE_TICKETS ! 0" "no_patch\<lparr>p_status := Some Created\<rparr>" Created]
  by (simp add: app_defs SAMPLE_TICKETS_def)

text \<open>
  Claim C6. For an id that no ticket of the collection has, \<^verbatim>\<open>handleDeleteTicket\<close>,
  \<^verbatim>\<open>handleStatusChange\<close> and \<^verbatim>\<open>handleRate\<close> return the state they were given, and
  \<^verbatim>\<open>handleUpdateTicket\<close>, called while \<^verbatim>\<open>editingTicket\<close> holds a ticket with that id (a ticket
  that was removed after the form was opened on it), leaves the collection as it is.
  None of them has an error result.
\<close>

theorem absent_id_noop:
  assumes "k \<notin> set (map id_t (tickets s))" and "id_t et = k"
  shows "handleDeleteTicket k s = s
       \<and> handleStatusChange k st s = s
       \<and> handleRate k r s = s
       \<and> tickets (handleUpdateTicket d (s\<lparr>editingTicket := Some et\<rparr>)) = tickets s"
  using assms
  by (simp add: handleDeleteTicket_def handleStatusChange_def handleRate_def
      handleUpdateTicket_def map_if_absent filter_absent)

theorem absent_id_noop_witness:
  "''3'' \<notin> set (map id_t (tickets (handleDeleteTicket ''3'' initial)))
   \<and> handleDeleteTicket ''3'' (handleDeleteTicket ''3'' initial) = handleDeleteTicket ''3'' initial
   \<and> handleStatusChange ''3'' Completed (handleDeleteTicket ''3'' initial)
       = handleDeleteTicket ''3'' initial
   \<and> handleRate ''3'' 2 (handleDeleteTicket ''3'' initial) = handleDeleteTicket ''3'' initial
   \<and> tickets (handleUpdateTicket (no_patch\<lparr>p_title := Some ''New title''\<rparr>)
         ((handleDeleteTicket ''3'' initial)\<lparr>editingTicket := Some (SAMPLE_TICKETS ! 2)\<rparr>))
       = tickets (handleDeleteTicket ''3'' initial)"
  using absent_id_noop
    [of "''3''" "handleDeleteTicket ''3'' initial" "SAMPLE_TICKETS ! 2"
        Completed 2 "no_patch\<lparr>p_title := Some ''New title''\<rparr>"]
  by (simp add: app_defs SAMPLE_TICKETS_def)

text \<open>
  Claim C7. After \<^verbatim>\<open>handleDeleteTicket\<close> no ticket of the collection has the removed id,
  and the tickets with another id are the same tickets in the same order: the collection
  without the tickets of that id is the same list before and after, and what is left is a
  subsequence of what was there.
\<close>

theorem remove_frame:
  "(\<forall>t \<in> set (tickets (handleDeleteTicket k s)). id_t t \<noteq> k)
   \<and> filter (\<lambda>t. id_t t \<noteq> k) (tickets (handleDeleteTicket k s))
       = filter (\<lambda>t. id_t t \<noteq> k) (tickets s)
   \<and> subseq (tickets (handleDeleteTicket k s)) (tickets s)"
  by (simp add: handleDeleteTicket_def)

theorem remove_frame_witness:
  "''3'' \<in> set (map id_t (tickets initial))
   \<and> ''3'' \<notin> set (map id_t (tickets (handleDeleteTicket ''3'' initial)))
   \<and> tickets (handleDeleteTicket ''3'' initial)
       = [SAMPLE_TICKETS ! 0, SAMPLE_TICKETS ! 1, SAMPLE_TICKETS ! 3, SAMPLE_TICKETS ! 4]"
  using remove_frame [of "''3''" initial]
  by (simp add: app_defs SAMPLE_TICKETS_def)

text \<open>
  Claim C10. \<^verbatim>\<open>handleStatusChange\<close> and \<^verbatim>\<open>handleRate\<close> keep the length and the order of
  the collection. At every position, a ticket with another id is left as it is; a ticket
  with the given id gets the new status (the new rating) and keeps its id, title,
  description, creation time and rating (status).
\<close>

theorem setStatus_setRating_frame:
  "length (tickets (handleStatusChange k st s)) = length (tickets s)
   \<and> length (tickets (handleRate k r s)) = length (tickets s)
   \<and> (\<forall>i < length (tickets s).
        (let old = tickets s ! i; a = tickets (handleStatusChange k st s) ! i;
             b = tickets (handleRate k r s) ! i
         in if id_t old = k
            then status a = st \<and> id_t a = id_t old \<and> title a = title old
               \<and> description a = description old \<and> createdAt a = createdAt old
               \<and> rating a = rating old
               \<and> rating b = Some r \<and> id_t b = id_t old \<and> title b = title old
               \<and> description b = description old \<and> createdAt b = createdAt old
               \<and> status b = status old
            else a = old \<and> b = old))"
  by (simp add: handleStatusChange_def handleRate_def Let_def)

theorem setStatus_setRating_frame_witness:
  "tickets (handleStatusChange ''2'' Completed initial)
     = (tickets initial)[1 := (tickets initial ! 1)\<lparr>status := Completed\<rparr>]
   \<and> tickets (handleRate ''2'' 3 initial)
     = (tickets initial)[1 := (tickets initial ! 1)\<lparr>rating := Some 3\<rparr>]"
  using setStatus_setRating_frame [of "''2''" Completed initial 3]
  by (simp add: app_defs SAMPLE_TICKETS_def)

section \<open>User actions\<close>

text \<open>
  Claim C8. In every state that a sequence of user actions reaches from the start of the
  session, the title and the description of every ticket are neither empty nor white
  space only; and every user action, the saving of an edited ticket included, keeps that
  property from any state that has it. The form is the only caller of
  \<^verbatim>\<open>handleUpdateTicket\<close> and \<^verbatim>\<open>handleCreateTicket\<close>, and it sends trimmed texts that are
  not empty.
\<close>

theorem content_never_blank:
  "(\<forall>t \<in> set (tickets (run evs)). nonblank (title t) \<and> nonblank (description t))
   \<and> (content_ok s \<longrightarrow> content_ok (step ev s))"
proof
  from content_ok_run [of evs]
  show "\<forall>t \<in> set (tickets (run evs)). nonblank (title t) \<and> nonblank (description t)"
    by (simp add: content_ok_def list_all_iff)
  show "content_ok s \<longrightarrow> content_ok (step ev s)"
    by (simp add: content_ok_step)
qed

theorem content_never_blank_witness:
  "nonblank (title (tickets (run [PressEdit 2, ChangeTitle ''  Mail is not sent '', PressSave env_a]) ! 2))
   \<and> title (tickets (run [PressEdit 2, ChangeTitle ''  Mail is not sent '', PressSave env_a]) ! 2)
       = ''Mail is not sent''
   \<and> content_ok (step (PressSave env_a) (run [PressEdit 2, ChangeTitle [], ChangeDescription '' '']))"
proof -
  let ?evs = "[PressEdit 2, ChangeTitle ''  Mail is not sent '', PressSave env_a]"
  let ?s = "run [PressEdit 2, ChangeTitle [], ChangeDescription '' '']"
  have mem: "tickets (run ?evs) ! 2 \<in> set (tickets (run ?evs))" by (simp add: run_simps)
  have val: "title (tickets (run ?evs) ! 2) = ''Mail is not sent''" by (simp add: run_simps)
  have pre: "content_ok ?s" by (simp add: run_simps content_ok_def nonblank_def)
  from content_never_blank [of ?evs ?s "PressSave env_a"] mem val pre show ?thesis by blast
qed

text \<open>
  The invariant rests on the form. \<^verbatim>\<open>handleUpdateTicket\<close> stores whatever its patch carries,
  an empty title too; no user action sends it such a patch.
\<close>

lemma handleUpdateTicket_does_not_validate:
  "title (tickets (handleUpdateTicket (no_patch\<lparr>p_title := Some []\<rparr>)
      (initial\<lparr>editingTicket := Some (SAMPLE_TICKETS ! 2)\<rparr>)) ! 2) = []"
  by (simp add: app_defs SAMPLE_TICKETS_def)

text \<open>
  Claim C9, as amended. Take a session in which the cards and the add button are pressed
  only while neither the form nor the delete dialog is visible. In every step of such a
  session taken while ticket ids are unique before and after it, a ticket whose status
  before the step is \<^verbatim>\<open>UnderAssistance\<close> or \<^verbatim>\<open>Completed\<close> has the same title and
  description after the step. The program enforces neither condition: the card handlers
  do not test whether a modal is open, the gate of the form reads the ticket as it was
  when the form was opened, and \<^verbatim>\<open>handleUpdateTicket\<close> does not look at the status.
\<close>

theorem content_edit_gate:
  assumes "free_screen initial (evs @ [ev])"
    and "t \<in> set (tickets (run evs))" and "status t \<noteq> Created"
    and "unique_ids (run evs)" and "unique_ids (step ev (run evs))"
    and "t' \<in> set (tickets (step ev (run evs)))" and "id_t t' = id_t t"
  shows "title t' = title t \<and> description t' = description t"
proof -
  from assms(1) have "free_screen initial evs"
    by (simp add: free_screen_snoc)
  then have "form_inv (run evs)"
    by (rule form_inv_run)
  from step_keeps_content [OF this assms(4) assms(5) assms(2) assms(6) assms(7) assms(3)]
  show ?thesis .
qed

theorem content_edit_gate_witness:
  "free_screen initial ([PressEdit 0, ChangeTitle ''Changed''] @ [PressSave env_a])
   \<and> status (tickets (run [PressEdit 0, ChangeTitle ''Changed'']) ! 0) = Completed
   \<and> unique_ids (step (PressSave env_a) (run [PressEdit 0, ChangeTitle ''Changed'']))
   \<and> title (tickets (step (PressSave env_a) (run [PressEdit 0, ChangeTitle ''Changed''])) ! 0)
       = ''Login button not responding''
   \<and> description (tickets (step (PressSave env_a) (run [PressEdit 0, ChangeTitle ''Changed''])) ! 0)
       = description (tickets (run [PressEdit 0, ChangeTitle ''Changed'']) ! 0)"
proof -
  let ?evs = "[PressEdit 0, ChangeTitle ''Changed'']"
  let ?ev = "PressSave env_a"
  let ?t = "tickets (run ?evs) ! 0"
  let ?t' = "tickets (step ?ev (run ?evs)) ! 0"
  have h0: "free_screen initial (?evs @ [?ev])" by (simp add: run_simps)
  have h1: "?t \<in> set (tickets (run ?evs))" by (simp add: run_simps)
  have h2: "status ?t \<noteq> Created" by (simp add: run_simps)
  have h3: "unique_ids (run ?evs)" by (simp add: run_simps unique_ids_def)
  have h4: "unique_ids (step ?ev (run ?evs))" by (simp add: run_simps unique_ids_def)
  have h5: "?t' \<in> set (tickets (step ?ev (run ?evs)))" by (simp add: run_simps)
  have h6: "id_t ?t' = id_t ?t" by (simp add: run_simps)
  have v1: "status ?t = Completed" by (simp add: run_simps)
  have v2: "title ?t = ''Login button not responding''" by (simp add: run_simps)
  from content_edit_gate [OF h0 h1 h2 h3 h4 h5 h6] h0 h4 v1 v2 show ?thesis by simp
qed

text \<open>
  Claim C9 as stated fails, in three ways. With unique ids: the form is opened on a
  ticket whose status is \<^verbatim>\<open>Created\<close>, the Start button of its card is pressed while the
  form is open, and saving a changed title then renames a ticket whose status is
  \<^verbatim>\<open>UnderAssistance\<close>. With a free screen: after two creations that got the same id,
  saving the first card's unchanged form renames the second ticket, whose status is
  \<^verbatim>\<open>UnderAssistance\<close>. And \<^verbatim>\<open>handleUpdateTicket\<close> with a title in its patch renames a
  completed ticket.
\<close>

theorem content_edit_not_gated:
  "unique_ids (run start_behind_form)
   \<and> status (tickets (run start_behind_form) ! 2) = UnderAssistance
   \<and> title (tickets (run start_behind_form) ! 2) = ''Email notifications not sent''
   \<and> unique_ids (step (PressSave env_a) (run start_behind_form))
   \<and> id_t (tickets (step (PressSave env_a) (run start_behind_form)) ! 2)
       = id_t (tickets (run start_behind_form) ! 2)
   \<and> title (tickets (step (PressSave env_a) (run start_behind_form)) ! 2) = ''Renamed''
   \<and> free_screen initial (edit_after_collision @ [PressSave env_a])
   \<and> status (tickets (run edit_after_collision) ! 1) = UnderAssistance
   \<and> title (tickets (run edit_after_collision) ! 1) = ''Login bug''
   \<and> title (tickets (step (PressSave env_a) (run edit_after_collision)) ! 1) = ''Printer jam''
   \<and> status (tickets initial ! 0) = Completed
   \<and> title (tickets initial ! 0) = ''Login button not responding''
   \<and> title (tickets (handleUpdateTicket (no_patch\<lparr>p_title := Some ''Changed''\<rparr>)
               (initial\<lparr>editingTicket := Some (tickets initial ! 0)\<rparr>)) ! 0) = ''Changed''"
proof -
  have behind: "unique_ids (run start_behind_form)
     \<and> status (tickets (run start_behind_form) ! 2) = UnderAssistance
     \<and> title (tickets (run start_behind_form) ! 2) = ''Email notifications not sent''
     \<and> unique_ids (step (PressSave env_a) (run start_behind_form))
     \<and> id_t (tickets (step (PressSave env_a) (run start_behind_form)) ! 2)
         = id_t (tickets (run start_behind_form) ! 2)
     \<and> title (tickets (step (PressSave env_a) (run start_behind_form)) ! 2) = ''Renamed''"
    by (simp add: start_behind_form_def run_simps unique_ids_def)
  have collision: "free_screen initial (edit_after_collision @ [PressSave env_a])
     \<and> status (tickets (run edit_after_collision) ! 1) = UnderAssistance
     \<and> title (tickets (run edit_after_collision) ! 1) = ''Login bug''
     \<and> title (tickets (step (PressSave env_a) (run edit_after_collision)) ! 1) = ''Printer jam''"
    by (simp add: edit_after_collision_def two_creations_def run_simps)
  have handler: "status (tickets initial ! 0) = Completed
     \<and> title (tickets initial ! 0) = ''Login button not responding''
     \<and> title (tickets (handleUpdateTicket (no_patch\<lparr>p_title := Some ''Changed''\<rparr>)
                 (initial\<lparr>editingTicket := Some (tickets initial ! 0)\<rparr>)) ! 0) = ''Changed''"
    by (simp add: app_defs SAMPLE_TICKETS_def)
  from behind collision handler show ?thesis by blast
qed

text \<open>
  Claim C5, as amended. In every step of the application taken while ticket ids are
  unique before and after it, a ticket whose rating is present has the same rating after
  the step: creating, saving the form, deleting and the status buttons never write a
  rating, and the stars of a card call \<^verbatim>\<open>handleRate\<close> only for a completed ticket without
  a rating. \<^verbatim>\<open>handleRate\<close> itself overwrites a rating that is present.
\<close>

theorem rating_kept_by_user_actions:
  assumes "t \<in> set (tickets (run evs))" and "rating t = Some r"
    and "unique_ids (run evs)" and "unique_ids (step ev (run evs))"
    and "t' \<in> set (tickets (step ev (run evs)))" and "id_t t' = id_t t"
  shows "rating t' = Some r"
  using step_keeps_rating
    [OF rating_inv_run assms(3) assms(4) assms(1) assms(5) assms(6) assms(2)] .

theorem rating_kept_by_user_actions_witness:
  "rating (tickets (run []) ! 0) = Some 5
   \<and> status (tickets (run []) ! 0) = Completed
   \<and> unique_ids (step (PressStar 0 3) (run []))
   \<and> rating (tickets (step (PressStar 0 3) (run [])) ! 0) = Some 5"
proof -
  let ?t = "tickets (run []) ! 0"
  let ?t' = "tickets (step (PressStar 0 3) (run [])) ! 0"
  have h1: "?t \<in> set (tickets (run []))" by (simp add: run_simps)
  have h2: "rating ?t = Some 5" by (simp add: run_simps)
  have h3: "unique_ids (run [])" by (simp add: run_simps unique_ids_def)
  have h4: "unique_ids (step (PressStar 0 3) (run []))" by (simp add: run_simps unique_ids_def)
  have h5: "?t' \<in> set (tickets (step (PressStar 0 3) (run [])))" by (simp add: run_simps)
  have h6: "id_t ?t' = id_t ?t" by (simp add: run_simps)
  have v1: "status ?t = Completed" by (simp add: run_simps)
  from rating_kept_by_user_actions [OF h1 h2 h3 h4 h5 h6] h2 h4 v1 show ?thesis by simp
qed

text \<open>
  Claim C5 as stated fails. \<^verbatim>\<open>handleRate\<close> replaces the rating 5 of the first sample
  ticket by 3; and through the cards, after two creations that got the same id, rating
  the newer ticket replaces the rating 5 of the older one.
\<close>

theorem rating_overwritten:
  "rating (tickets initial ! 0) = Some 5
   \<and> rating (tickets (handleRate ''1'' 3 initial) ! 0) = Some 3
   \<and> rating (tickets (run rate_after_collision) ! 1) = Some 5
   \<and> rating (tickets (step (PressStar 0 3) (run rate_after_collision)) ! 1) = Some 3"
  by (simp add: rate_after_collision_def run_simps)

end
